theory Spec2Isabelle
  imports Main "HOL-Library.AList"
begin

section \<open>Values and library functions\<close>

text \<open>
  The two tools (\<^verbatim>\<open>tools/audit_fill.py\<close>, \<^verbatim>\<open>tools/audit_qna.py\<close>) work on whatever
  \<^verbatim>\<open>json.load\<close> returns, so the model keeps the whole range of decoded values. A Python
  \<^verbatim>\<open>str\<close> is a \<open>string\<close> whose characters are the code points below 256; a \<^verbatim>\<open>dict\<close> is
  an association list in insertion order (lookup finds the first binding of a key, an
  assignment to a bound key keeps its position, as Python's dict does).
\<close>

datatype pyfloat = Finite bool nat int | Infinite bool | NaN

datatype json =
    JNull
  | JBool bool
  | JInt int
  | JFloat pyfloat
  | JStr string
  | JArr "json list"
  | JObj "(string \<times> json) list"

type_synonym pydict = "(string \<times> json) list"

datatype error =
    AttributeError
  | TypeError
  | KeyError
  | EOFError
  | JSONDecodeError
  | UnicodeDecodeError
  | UnicodeEncodeError
  | FileNotFoundError

text \<open>
  Functions of the Python standard library that the tools call and whose code is not part
  of the repository: the JSON decoder and encoder (the encoder with its \<^verbatim>\<open>ensure_ascii\<close>
  and \<^verbatim>\<open>indent\<close> arguments), the text codecs behind \<^verbatim>\<open>open(..., encoding=...)\<close>, and
  \<^verbatim>\<open>str()\<close> of floats and containers. They are parameters of the model. A codec can
  refuse its input: \<open>decode\<close> gives \<open>None\<close> for bytes that are not text in the encoding,
  and \<open>encode\<close> gives \<open>Inl p\<close> for text it cannot encode (a lone surrogate, which
  \<^verbatim>\<open>json.load\<close> accepts in an escape), \<open>p\<close> being the bytes that reached the file before
  the exception, and \<open>Inr b\<close> with all the bytes otherwise.
\<close>

record pylib =
  json_loads :: "string \<Rightarrow> json option"
  json_dumps :: "json \<Rightarrow> bool \<Rightarrow> nat option \<Rightarrow> string"
  decode :: "string \<Rightarrow> string \<Rightarrow> string option"
  encode :: "string \<Rightarrow> string \<Rightarrow> string + string"
  repr :: "json \<Rightarrow> string"

subsection \<open>Strings\<close>

text \<open>\<^verbatim>\<open>str.isspace\<close> on a code point below 256.\<close>

definition isspace :: "char \<Rightarrow> bool" where
  "isspace c = (of_char c \<in> {9, 10, 11, 12, 13, 28, 29, 30, 31, 32, 133, 160 :: nat})"

text \<open>\<^verbatim>\<open>s.strip()\<close>\<close>

definition strip :: "string \<Rightarrow> string" where
  "strip s = rev (dropWhile isspace (rev (dropWhile isspace s)))"

text \<open>\<^verbatim>\<open>s.lower()\<close> on code points below 256: A-Z and the capital letters of Latin-1.\<close>

definition lower_char :: "char \<Rightarrow> char" where
  "lower_char c =
     (let n = of_char c :: nat
      in if (65 \<le> n \<and> n \<le> 90) \<or> (192 \<le> n \<and> n \<le> 222 \<and> n \<noteq> 215)
         then char_of (n + 32) else c)"

definition lower :: "string \<Rightarrow> string" where
  "lower s = map lower_char s"

text \<open>
  \<^verbatim>\<open>s.split()\<close>: the maximal runs of non-whitespace characters. \<open>cur\<close> is the word being
  read, reversed.
\<close>

fun split_from :: "string \<Rightarrow> string \<Rightarrow> string list" where
  "split_from cur [] = (if cur = [] then [] else [rev cur])"
| "split_from cur (c # cs) =
     (if isspace c
      then (if cur = [] then split_from [] cs else rev cur # split_from [] cs)
      else split_from (c # cur) cs)"

definition split :: "string \<Rightarrow> string list" where
  "split s = split_from [] s"

text \<open>\<^verbatim>\<open>sep.join(words)\<close>\<close>

fun join :: "string \<Rightarrow> string list \<Rightarrow> string" where
  "join sep [] = []"
| "join sep [w] = w"
| "join sep (w # ws) = w @ sep @ join sep ws"

text \<open>Decimal digits of a natural number, for \<^verbatim>\<open>{i}\<close> and \<^verbatim>\<open>{len(cleaned)}\<close> in f-strings.\<close>

fun digits :: "nat \<Rightarrow> string" where
  "digits n = (if n < 10 then [char_of (48 + n)] else digits (n div 10) @ [char_of (48 + n mod 10)])"

declare digits.simps [simp del]

subsection \<open>Truth values, \<^verbatim>\<open>or\<close>, \<^verbatim>\<open>str()\<close>, iteration\<close>

fun truthy :: "json \<Rightarrow> bool" where
  "truthy JNull = False"
| "truthy (JBool b) = b"
| "truthy (JInt i) = (i \<noteq> 0)"
| "truthy (JFloat f) = (case f of Finite s m e \<Rightarrow> m \<noteq> 0 | _ \<Rightarrow> True)"
| "truthy (JStr s) = (s \<noteq> [])"
| "truthy (JArr xs) = (xs \<noteq> [])"
| "truthy (JObj d) = (d \<noteq> [])"

text \<open>\<^verbatim>\<open>a or b\<close>\<close>

definition py_or :: "json \<Rightarrow> json \<Rightarrow> json" where
  "py_or a b = (if truthy a then a else b)"

text \<open>\<^verbatim>\<open>str(v)\<close>, which is what \<^verbatim>\<open>{v}\<close> in an f-string inserts.\<close>

fun py_str :: "pylib \<Rightarrow> json \<Rightarrow> string" where
  "py_str L JNull = ''None''"
| "py_str L (JBool b) = (if b then ''True'' else ''False'')"
| "py_str L (JInt i) = (if i < 0 then ''-'' @ digits (nat (- i)) else digits (nat i))"
| "py_str L (JStr s) = s"
| "py_str L v = repr L v"

text \<open>
  \<^verbatim>\<open>for it in items\<close>: a list gives its elements, a dict its keys, a string its
  characters; anything else is not iterable.
\<close>

fun py_iter :: "json \<Rightarrow> error + json list" where
  "py_iter (JArr xs) = Inr xs"
| "py_iter (JObj d) = Inr (map (\<lambda>(k, v). JStr k) d)"
| "py_iter (JStr s) = Inr (map (\<lambda>c. JStr [c]) s)"
| "py_iter v = Inl TypeError"

subsection \<open>Dictionaries\<close>

text \<open>\<^verbatim>\<open>d.get(k, dflt)\<close>; \<^verbatim>\<open>d.get(k)\<close> is \<open>dict_get d k JNull\<close>.\<close>

definition dict_get :: "pydict \<Rightarrow> string \<Rightarrow> json \<Rightarrow> json" where
  "dict_get d k dflt = (case map_of d k of None \<Rightarrow> dflt | Some v \<Rightarrow> v)"

text \<open>\<^verbatim>\<open>d[k] = v\<close>\<close>

definition dict_set :: "pydict \<Rightarrow> string \<Rightarrow> json \<Rightarrow> pydict" where
  "dict_set d k v = AList.update k v d"

text \<open>\<^verbatim>\<open>it[k]\<close> on any value: only a dict can be indexed by a string.\<close>

fun subscript :: "json \<Rightarrow> string \<Rightarrow> error + json" where
  "subscript (JObj d) k = (case map_of d k of None \<Rightarrow> Inl KeyError | Some v \<Rightarrow> Inr v)"
| "subscript v k = Inl TypeError"

text \<open>\<^verbatim>\<open>'literal' + v\<close>: only a string can be appended to a string.\<close>

fun concat_str :: "string \<Rightarrow> json \<Rightarrow> error + string" where
  "concat_str s (JStr t) = Inr (s @ t)"
| "concat_str s v = Inl TypeError"

section \<open>The deduplicator (\<^verbatim>\<open>dedupe\<close> in audit_fill.py)\<close>

text \<open>
  The normalization key of line 26, \<^verbatim>\<open>' '.join(q.lower().split())\<close>.
\<close>

definition normalization_key :: "string \<Rightarrow> string" where
  "normalization_key q = join '' '' (split (lower q))"

text \<open>
  The loop state is \<open>(seen, out)\<close>. In the source \<^verbatim>\<open>seen[key]\<close> and an element of
  \<^verbatim>\<open>out\<close> are the same object, so \<open>seen\<close> holds the position of that object in \<open>out\<close>
  and an assignment through \<^verbatim>\<open>prev\<close> is an update of \<open>out\<close> at that position.
\<close>

type_synonym dstate = "(string \<rightharpoonup> nat) \<times> pydict list"

fun dedupe_step :: "dstate \<Rightarrow> json \<Rightarrow> error + dstate" where
  "dedupe_step (seen, out) (JObj it) =
     (case dict_get it ''question'' (JStr '''') of
        JStr s \<Rightarrow>
          (let q = strip s;
               key = normalization_key q
           in if key = [] then Inr (seen, out)
              else (case seen key of
                Some i \<Rightarrow>
                  (let prev = out ! i;
                       prev1 = (if \<not> truthy (dict_get prev ''answer'' JNull)
                                   \<and> truthy (dict_get it ''answer'' JNull)
                                then dict_set prev ''answer'' (dict_get it ''answer'' JNull)
                                else prev);
                       prev2 = dict_set prev1 ''optional''
                                 (py_or (dict_get prev1 ''optional'' (JBool False))
                                        (dict_get it ''optional'' (JBool False)))
                   in Inr (seen, out[i := prev2]))
              | None \<Rightarrow>
                  (let obj = [(''question'', JStr q),
                              (''answer'', dict_get it ''answer'' (JStr '''')),
                              (''optional'', dict_get it ''optional'' (JBool False))]
                   in Inr (seen(key \<mapsto> length out), out @ [obj]))))
      | _ \<Rightarrow> Inl AttributeError)"
| "dedupe_step (seen, out) v = Inl AttributeError"

fun dedupe_loop :: "dstate \<Rightarrow> json list \<Rightarrow> error + dstate" where
  "dedupe_loop st [] = Inr st"
| "dedupe_loop st (it # its) =
     (case dedupe_step st it of Inl e \<Rightarrow> Inl e | Inr st' \<Rightarrow> dedupe_loop st' its)"

text \<open>The list returned is \<^verbatim>\<open>out\<close>, a list of dicts.\<close>

definition dedupe :: "json \<Rightarrow> error + json list" where
  "dedupe items =
     (case py_iter items of
        Inl e \<Rightarrow> Inl e
      | Inr its \<Rightarrow>
          (case dedupe_loop (Map.empty, []) its of
             Inl e \<Rightarrow> Inl e
           | Inr (seen, out) \<Rightarrow> Inr (map JObj out)))"

text \<open>
  The normalization key that lines 25-26 compute for an item; \<open>None\<close> where they raise
  (the item is not a dict, or its question is not a string).
\<close>

definition question_key :: "pydict \<Rightarrow> string option" where
  "question_key it =
     (case dict_get it ''question'' (JStr '''') of
        JStr s \<Rightarrow> Some (normalization_key (strip s))
      | _ \<Rightarrow> None)"

fun item_key :: "json \<Rightarrow> string option" where
  "item_key (JObj it) = question_key it"
| "item_key v = None"

section \<open>Standard streams and files\<close>

text \<open>
  \<open>files\<close> maps a path to the bytes of the file there, \<open>stdin\<close> holds the lines the
  operator will type, \<open>stdout\<close> the text written so far.
\<close>

record world =
  files :: "string \<rightharpoonup> string"
  stdin :: "string list"
  stdout :: string

abbreviation NL :: char where
  "NL \<equiv> CHR 0x0A"

abbreviation e_acute :: char where
  "e_acute \<equiv> CHR 0xE9"

text \<open>\<^verbatim>\<open>print(s)\<close>\<close>

definition print :: "string \<Rightarrow> world \<Rightarrow> world" where
  "print s W = W\<lparr>stdout := stdout W @ s @ [NL]\<rparr>"

text \<open>\<^verbatim>\<open>input(prompt)\<close>: writes the prompt, reads one line; end of input raises.\<close>

definition py_input :: "string \<Rightarrow> world \<Rightarrow> (error + string) \<times> world" where
  "py_input prompt W =
     (let W' = W\<lparr>stdout := stdout W @ prompt\<rparr>
      in case stdin W of
           [] \<Rightarrow> (Inl EOFError, W')
         | l # ls \<Rightarrow> (Inr l, W'\<lparr>stdin := ls\<rparr>))"

text \<open>\<^verbatim>\<open>Path(__file__).resolve().parent / name\<close>, with \<open>here\<close> the directory of the tools.\<close>

definition path_div :: "string \<Rightarrow> string \<Rightarrow> string" where
  "path_div p name = (if p \<noteq> [] \<and> last p = CHR ''/'' then p @ name else p @ ''/'' @ name)"

definition DATA :: "string \<Rightarrow> string" where
  "DATA here = path_div here ''audit1_questions.json''"

definition BACKUP :: "string \<Rightarrow> string" where
  "BACKUP here = path_div here ''audit1_questions.json.bak''"

definition DATA_FILE :: "string \<Rightarrow> string" where
  "DATA_FILE here = path_div here ''audit1_questions.json''"

text \<open>\<^verbatim>\<open>shutil.copy2(src, dst)\<close>: the bytes of \<open>src\<close> replace those of \<open>dst\<close>.\<close>

definition copy2 :: "string \<Rightarrow> string \<Rightarrow> world \<Rightarrow> error + world" where
  "copy2 src dst W =
     (case files W src of
        None \<Rightarrow> Inl FileNotFoundError
      | Some bytes \<Rightarrow> Inr (W\<lparr>files := (files W)(dst \<mapsto> bytes)\<rparr>))"

section \<open>The store accessor (\<^verbatim>\<open>load\<close>, \<^verbatim>\<open>save\<close>, \<^verbatim>\<open>load_questions\<close>)\<close>

definition load_questions :: "pylib \<Rightarrow> string \<Rightarrow> world \<Rightarrow> error + json" where
  "load_questions L path W =
     (case files W path of
        None \<Rightarrow> Inl FileNotFoundError
      | Some bytes \<Rightarrow>
          (case decode L ''utf-8'' bytes of
             None \<Rightarrow> Inl UnicodeDecodeError
           | Some text \<Rightarrow>
               (case json_loads L text of
                  None \<Rightarrow> Inl JSONDecodeError
                | Some v \<Rightarrow> Inr v)))"

definition load :: "pylib \<Rightarrow> string \<Rightarrow> world \<Rightarrow> error + json" where
  "load L here W =
     (case files W (DATA here) of
        None \<Rightarrow> Inl FileNotFoundError
      | Some bytes \<Rightarrow>
          (case decode L ''utf-8'' bytes of
             None \<Rightarrow> Inl UnicodeDecodeError
           | Some text \<Rightarrow>
               (case json_loads L text of
                  None \<Rightarrow> Inl JSONDecodeError
                | Some v \<Rightarrow> Inr v)))"

text \<open>
  Opening with \<^verbatim>\<open>'w'\<close> truncates, so what \<^verbatim>\<open>json.dump\<close> writes replaces the file. When
  the codec refuses a character the exception leaves \<^verbatim>\<open>save\<close>, and the file keeps the
  bytes written until then.
\<close>

definition save :: "pylib \<Rightarrow> string \<Rightarrow> json \<Rightarrow> world \<Rightarrow> (error + unit) \<times> world" where
  "save L here data W =
     (case encode L ''utf-8'' (json_dumps L data False (Some 2)) of
        Inr bytes \<Rightarrow> (Inr (), W\<lparr>files := (files W)(DATA here \<mapsto> bytes)\<rparr>)
      | Inl written \<Rightarrow>
          (Inl UnicodeEncodeError, W\<lparr>files := (files W)(DATA here \<mapsto> written)\<rparr>))"

section \<open>The interactive filler (\<^verbatim>\<open>interactive_fill\<close>)\<close>

text \<open>\<^verbatim>\<open>it[k] = v\<close> on any value.\<close>

fun store :: "json \<Rightarrow> string \<Rightarrow> json \<Rightarrow> error + json" where
  "store (JObj d) k v = Inr (JObj (dict_set d k v))"
| "store x k v = Inl TypeError"

text \<open>The body of the loop, lines 45-49, for one item.\<close>

definition fill_item :: "json \<Rightarrow> world \<Rightarrow> (error + json) \<times> world" where
  "fill_item it W =
     (case subscript it ''question'' of
        Inl e \<Rightarrow> (Inl e, W)
      | Inr qv \<Rightarrow>
     (case concat_str (NL # ''Question: '') qv of
        Inl e \<Rightarrow> (Inl e, W)
      | Inr line1 \<Rightarrow>
     (let W1 = print line1 W in
      case subscript it ''answer'' of
        Inl e \<Rightarrow> (Inl e, W1)
      | Inr av \<Rightarrow>
     (case concat_str (''R'' @ [e_acute] @ ''ponse actuelle: '') (py_or av (JStr ''<vide>'')) of
        Inl e \<Rightarrow> (Inl e, W1)
      | Inr line2 \<Rightarrow>
     (let W2 = print line2 W1 in
      case py_input (''Nouvelle r'' @ [e_acute] @ ''ponse (ENTER pour garder): '') W2 of
        (Inl e, W3) \<Rightarrow> (Inl e, W3)
      | (Inr l, W3) \<Rightarrow>
          (let ans = strip l
           in if ans \<noteq> [] then (store it ''answer'' (JStr ans), W3) else (Inr it, W3)))))))"

fun interactive_fill :: "json list \<Rightarrow> world \<Rightarrow> (error + json list) \<times> world" where
  "interactive_fill [] W = (Inr [], W)"
| "interactive_fill (it # its) W =
     (case fill_item it W of
        (Inl e, W') \<Rightarrow> (Inl e, W')
      | (Inr it', W') \<Rightarrow>
          (case interactive_fill its W' of
             (Inl e, W'') \<Rightarrow> (Inl e, W'')
           | (Inr its', W'') \<Rightarrow> (Inr (it' # its'), W'')))"

section \<open>The fill tool (\<^verbatim>\<open>main\<close> of audit_fill.py)\<close>

text \<open>
  How a run ends: the script returns, an exception escapes, or \<^verbatim>\<open>sys.exit(n)\<close> is called.
  \<open>exit_status\<close> is the status the interpreter then gives the process.
\<close>

datatype outcome = Returned | Raised error | Exited nat

fun exit_status :: "outcome \<Rightarrow> nat" where
  "exit_status Returned = 0"
| "exit_status (Raised e) = 1"
| "exit_status (Exited n) = n"

text \<open>The flags as \<^verbatim>\<open>parser.parse_args()\<close> returns them.\<close>

record args =
  dedupe_only :: bool
  interactive :: bool

definition main :: "pylib \<Rightarrow> string \<Rightarrow> args \<Rightarrow> world \<Rightarrow> outcome \<times> world" where
  "main L here a W =
     (if files W (DATA here) = None
      then (Returned, print (''Fichier de questions introuvable: '' @ DATA here) W)
      else
        (case copy2 (DATA here) (BACKUP here) W of
           Inl e \<Rightarrow> (Raised e, W)
         | Inr W1 \<Rightarrow>
        (case load L here W1 of
           Inl e \<Rightarrow> (Raised e, W1)
         | Inr items \<Rightarrow>
        (case dedupe items of
           Inl e \<Rightarrow> (Raised e, W1)
         | Inr cleaned \<Rightarrow>
        (case (if interactive a then interactive_fill cleaned W1 else (Inr cleaned, W1)) of
           (Inl e, W2) \<Rightarrow> (Raised e, W2)
         | (Inr cleaned', W2) \<Rightarrow>
        (case save L here (JArr cleaned') W2 of
           (Inl e, W3) \<Rightarrow> (Raised e, W3)
         | (Inr u, W3) \<Rightarrow>
             (Returned,
              print (''Nettoy'' @ [e_acute] @ '' et enregistr'' @ [e_acute] @ '' ''
                       @ digits (length cleaned') @ '' questions dans '' @ DATA here
                       @ '' (backup: '' @ BACKUP here @ '')'') W3)))))))"

section \<open>The report tool (audit_qna.py)\<close>

text \<open>\<^verbatim>\<open>item.get(k)\<close> on any value: only a dict has \<^verbatim>\<open>get\<close>.\<close>

fun get_method :: "json \<Rightarrow> string \<Rightarrow> error + json" where
  "get_method (JObj d) k = Inr (dict_get d k JNull)"
| "get_method v k = Inl AttributeError"

text \<open>The loop of \<^verbatim>\<open>print_qna\<close> from the item numbered \<open>i\<close> on.\<close>

fun print_qna_from :: "pylib \<Rightarrow> nat \<Rightarrow> json list \<Rightarrow> world \<Rightarrow> (error + unit) \<times> world" where
  "print_qna_from L i [] W = (Inr (), W)"
| "print_qna_from L i (item # items) W =
     (case get_method item ''question'' of
        Inl e \<Rightarrow> (Inl e, W)
      | Inr q \<Rightarrow>
     (case get_method item ''answer'' of
        Inl e \<Rightarrow> (Inl e, W)
      | Inr a \<Rightarrow>
          print_qna_from L (Suc i) items
            (print (digits i @ ''. Question: '' @ py_str L q @ [NL]
                      @ ''   R'' @ [e_acute] @ ''ponse: '' @ py_str L a @ [NL]) W)))"

definition print_qna :: "pylib \<Rightarrow> json \<Rightarrow> world \<Rightarrow> (error + unit) \<times> world" where
  "print_qna L questions W =
     (case py_iter questions of
        Inl e \<Rightarrow> (Inl e, W)
      | Inr its \<Rightarrow> print_qna_from L 1 its W)"

text \<open>The script body, lines 21-29; \<open>argv\<close> is \<^verbatim>\<open>sys.argv\<close>.\<close>

definition qna_main :: "pylib \<Rightarrow> string \<Rightarrow> string list \<Rightarrow> world \<Rightarrow> outcome \<times> world" where
  "qna_main L here argv W =
     (if files W (DATA_FILE here) = None
      then (Exited 2, print (''Fichier de questions introuvable: '' @ DATA_FILE here) W)
      else
        (case load_questions L (DATA_FILE here) W of
           Inl e \<Rightarrow> (Raised e, W)
         | Inr questions \<Rightarrow>
             (if length argv > 1 \<and> (argv ! 1 = ''--json'' \<or> argv ! 1 = ''-j'')
              then (Returned, print (json_dumps L questions False (Some 2)) W)
              else (case print_qna L questions W of
                      (Inl e, W') \<Rightarrow> (Raised e, W')
                    | (Inr u, W') \<Rightarrow> (Returned, W')))))"

section \<open>Invariant of the deduplication loop\<close>

text \<open>
  A record as line 37 builds it: the three keys in that order, with a stripped question
  whose key is not empty.
\<close>

definition is_record :: "pydict \<Rightarrow> bool" where
  "is_record r =
     (\<exists>q a opt. r = [(''question'', JStr q), (''answer'', a), (''optional'', opt)]
        \<and> strip q = q \<and> normalization_key q \<noteq> [])"

text \<open>
  Every element of \<open>out\<close> is such a record and \<open>seen\<close> maps exactly the keys of these
  records, each to the position of its record.
\<close>

definition dinv :: "dstate \<Rightarrow> bool" where
  "dinv st =
     (case st of (seen, out) \<Rightarrow>
        (\<forall>i < length out. is_record (out ! i)
            \<and> (\<exists>k. question_key (out ! i) = Some k \<and> seen k = Some i))
        \<and> (\<forall>k i. seen k = Some i \<longrightarrow> i < length out \<and> question_key (out ! i) = Some k))"

text \<open>The merge of lines 31-35 as a function of the kept record and the incoming item.\<close>

definition merged :: "pydict \<Rightarrow> pydict \<Rightarrow> pydict" where
  "merged prev it =
     (let prev1 = (if \<not> truthy (dict_get prev ''answer'' JNull) \<and> truthy (dict_get it ''answer'' JNull)
                   then dict_set prev ''answer'' (dict_get it ''answer'' JNull) else prev)
      in dict_set prev1 ''optional''
           (py_or (dict_get prev1 ''optional'' (JBool False)) (dict_get it ''optional'' (JBool False))))"

section \<open>A library instance for concrete runs\<close>

text \<open>
  To run the model on a concrete file the library functions have to be concrete. This
  instance is \<^verbatim>\<open>json\<close> restricted to the documents of the examples: it decodes the empty
  object \<^verbatim>\<open>{}\<close> and the one-record list \<open>sample_doc\<close> and rejects every other text; it
  encodes, with \<^verbatim>\<open>ensure_ascii=False\<close> and \<^verbatim>\<open>indent=2\<close>, the empty list and the record that
  \<^verbatim>\<open>dedupe\<close> makes of \<open>sample_doc\<close>. The files hold ASCII text, where the UTF-8 codec is the
  identity, or the byte 0xFF, which is part of no UTF-8 text and is refused.
\<close>

abbreviation DQ :: char where
  "DQ \<equiv> CHR 0x22"

definition sample_doc :: string where
  "sample_doc = ''[{'' @ [DQ] @ ''question'' @ [DQ] @ '': '' @ [DQ] @ '' Q '' @ [DQ] @ ''}]''"

definition sample_value :: json where
  "sample_value = JArr [JObj [(''question'', JStr '' Q '')]]"

definition sample_cleaned :: json where
  "sample_cleaned =
     JArr [JObj [(''question'', JStr ''Q''), (''answer'', JStr []), (''optional'', JBool False)]]"

definition sample_out :: string where
  "sample_out =
     ''['' @ [NL]
     @ ''  {'' @ [NL]
     @ ''    '' @ [DQ] @ ''question'' @ [DQ] @ '': '' @ [DQ] @ ''Q'' @ [DQ] @ '','' @ [NL]
     @ ''    '' @ [DQ] @ ''answer'' @ [DQ] @ '': '' @ [DQ] @ [DQ] @ '','' @ [NL]
     @ ''    '' @ [DQ] @ ''optional'' @ [DQ] @ '': false'' @ [NL]
     @ ''  }'' @ [NL]
     @ '']''"

definition sample_lib :: pylib where
  "sample_lib =
     \<lparr>json_loads = (\<lambda>s. if s = ''{}'' then Some (JObj [])
                         else if s = sample_doc then Some sample_value
                         else None),
      json_dumps = (\<lambda>v ensure_ascii indent.
                      if v = sample_cleaned \<and> \<not> ensure_ascii \<and> indent = Some 2 then sample_out
                      else if v = JArr [] then ''[]''
                      else []),
      decode = (\<lambda>enc b. if CHR 0xFF \<in> set b then None else Some b),
      encode = (\<lambda>enc s. Inr s),
      repr = (\<lambda>v. [])\<rparr>"

section \<open>Properties of the string functions and of the loop\<close>

lemma dropWhile_rev_tl:
  "xs = [] \<or> \<not> P (hd xs) \<Longrightarrow> dropWhile P (rev (dropWhile P (rev xs))) = rev (dropWhile P (rev xs))"
  by (metis (no_types, lifting) dropWhile_eq_Nil_conv
    dropWhile_eq_self_iff dropWhile_last last_rev rev.simps(1)
    rev_rev_ident)

lemma strip_idem: "strip (strip s) = strip s"
  by (metis dropWhile_eq_self_iff dropWhile_idem dropWhile_rev_tl
    rev_rev_ident strip_def)

lemma strip_Nil: "strip [] = []"
  by (simp add: strip_def)

lemma strip_spaces: "\<forall>c \<in> set s. isspace c \<Longrightarrow> strip s = []"
  by (auto simp: strip_def dest: set_dropWhileD)

lemma normalization_key_Nil: "normalization_key [] = []"
  by (simp add: normalization_key_def lower_def split_def)

lemma question_key_record:
  "question_key [(''question'', JStr q), (''answer'', a), (''optional'', opt)] = Some (normalization_key (strip q))"
  by (simp add: question_key_def dict_get_def)

lemma question_key_dict_set:
  "k \<noteq> ''question'' \<Longrightarrow> question_key (dict_set d k v) = question_key d"
  by (simp add: question_key_def dict_get_def dict_set_def update_conv)

lemma is_record_dict_set_answer: "is_record r \<Longrightarrow> is_record (dict_set r ''answer'' v)"
  by (auto simp: is_record_def dict_set_def)

lemma is_record_dict_set_optional: "is_record r \<Longrightarrow> is_record (dict_set r ''optional'' v)"
  by (auto simp: is_record_def dict_set_def)

lemma is_record_key: "is_record r \<Longrightarrow> \<exists>k. question_key r = Some k \<and> k \<noteq> []"
  by (auto simp: is_record_def question_key_record)

lemma is_record_merged: "is_record r \<Longrightarrow> is_record (merged r it)"
  by (simp add: merged_def Let_def is_record_dict_set_answer is_record_dict_set_optional)

lemma question_key_merged: "question_key (merged r it) = question_key r"
  by (simp add: merged_def Let_def question_key_dict_set)

lemma dedupe_step_cases:
  assumes "dedupe_step (seen, out) it = Inr st'"
  obtains (skip) d where "it = JObj d" "question_key d = Some []" "st' = (seen, out)"
  | (merge) d k i where "it = JObj d" "question_key d = Some k" "k \<noteq> []" "seen k = Some i"
      "st' = (seen, out[i := merged (out ! i) d])"
  | (new) d k s where "it = JObj d" "question_key d = Some k" "k \<noteq> []" "seen k = None"
      "dict_get d ''question'' (JStr '''') = JStr s"
      "st' = (seen(k \<mapsto> length out), out @ [[(''question'', JStr (strip s)),
                (''answer'', dict_get d ''answer'' (JStr '''')),
                (''optional'', dict_get d ''optional'' (JBool False))]])"
  using assms
  by (cases it; cases "dict_get (case it of JObj d \<Rightarrow> d) ''question'' (JStr '''')")
     (auto simp: question_key_def merged_def Let_def split: if_splits option.splits)

lemma dinv_empty: "dinv (Map.empty, [])"
  by (simp add: dinv_def)

lemma dinv_seen_iff:
  assumes "dinv (seen, out)"
  shows "(\<exists>i. seen k = Some i) \<longleftrightarrow> Some k \<in> set (map question_key out)"
proof
  assume "\<exists>i. seen k = Some i"
  then obtain i where "seen k = Some i" by blast
  with assms have "i < length out" "question_key (out ! i) = Some k"
    by (simp_all add: dinv_def)
  then show "Some k \<in> set (map question_key out)"
    by (metis length_map nth_map nth_mem)
next
  assume "Some k \<in> set (map question_key out)"
  then obtain i where i: "i < length out" "question_key (out ! i) = Some k"
    by (auto simp: in_set_conv_nth)
  with assms obtain k' where "question_key (out ! i) = Some k'" "seen k' = Some i"
    unfolding dinv_def by auto
  with i show "\<exists>i. seen k = Some i" by auto
qed

lemma dedupe_step_dinv:
  assumes inv: "dinv (seen, out)" and step: "dedupe_step (seen, out) it = Inr (seen', out')"
  shows "dinv (seen', out')"
  using step
proof (cases rule: dedupe_step_cases)
  case (skip d)
  then show ?thesis using inv by simp
next
  case (merge d k i)
  then show ?thesis using inv
    unfolding dinv_def
    by (auto simp: nth_list_update is_record_merged question_key_merged)
next
  case (new d k s)
  let ?obj = "[(''question'', JStr (strip s)), (''answer'', dict_get d ''answer'' (JStr [])),
                (''optional'', dict_get d ''optional'' (JBool False))]"
  from new have k: "k = normalization_key (strip s)"
    by (simp add: question_key_def)
  have rec: "is_record ?obj"
    using new(3) k by (simp add: is_record_def strip_idem)
  have key: "question_key ?obj = Some k"
    by (simp add: question_key_record strip_idem k)
  have st: "seen' = seen(k \<mapsto> length out)" "out' = out @ [?obj]"
    using new by simp_all
  have old: "\<And>i. i < length out \<Longrightarrow> is_record (out ! i) \<and> (\<exists>k'. question_key (out ! i) = Some k' \<and> seen k' = Some i)"
    using inv by (simp add: dinv_def)
  have old2: "\<And>k' i. seen k' = Some i \<Longrightarrow> i < length out \<and> question_key (out ! i) = Some k'"
    using inv by (simp add: dinv_def)
  have a: "is_record (out' ! i) \<and> (\<exists>k'. question_key (out' ! i) = Some k' \<and> seen' k' = Some i)"
    if "i < length out'" for i
  proof (cases "i < length out")
    case True
    with old obtain k' where "is_record (out ! i)" "question_key (out ! i) = Some k'" "seen k' = Some i"
      by blast
    moreover from this new(4) have "k' \<noteq> k" by auto
    ultimately show ?thesis using True by (simp add: st nth_append)
  next
    case False
    with that have "i = length out" by (simp add: st)
    then show ?thesis using rec key by (simp add: st)
  qed
  have b: "i < length out' \<and> question_key (out' ! i) = Some k'" if "seen' k' = Some i" for k' i
  proof (cases "k' = k")
    case True
    with that have "i = length out" by (simp add: st)
    then show ?thesis using key True by (simp add: st)
  next
    case False
    with that have "seen k' = Some i" by (simp add: st)
    from old2[OF this] show ?thesis by (simp add: st nth_append)
  qed
  show ?thesis unfolding dinv_def using a b by simp
qed

lemma remdups_snoc: "remdups (xs @ [k]) = filter (\<lambda>x. x \<noteq> k) (remdups xs) @ [k]"
  by (induction xs) auto

lemma first_seen_Cons:
  "rev (remdups (rev (k # ks))) = k # filter (\<lambda>x. x \<noteq> k) (rev (remdups (rev ks)))"
  by (simp add: remdups_snoc rev_filter)

lemma dedupe_step_keys:
  assumes inv: "dinv (seen, out)" and step: "dedupe_step (seen, out) it = Inr (seen', out')"
  shows "\<exists>k. item_key it = Some k \<and>
           map question_key out' =
             (if k = [] \<or> Some k \<in> set (map question_key out) then map question_key out
              else map question_key out @ [Some k])"
  using step
proof (cases rule: dedupe_step_cases)
  case (skip d)
  then show ?thesis by simp
next
  case (merge d k i)
  from merge(4) have "Some k \<in> set (map question_key out)"
    using dinv_seen_iff[OF inv, of k] by blast
  moreover from inv merge(4) have "i < length out"
    by (simp add: dinv_def)
  then have "map question_key (out[i := merged (out ! i) d]) = map question_key out"
    by (simp add: map_update question_key_merged list_update_same_conv)
  ultimately show ?thesis using merge by simp
next
  case (new d k s)
  from new(4) have "Some k \<notin> set (map question_key out)"
    using dinv_seen_iff[OF inv, of k] by simp
  moreover have "k = normalization_key (strip s)"
    using new by (simp add: question_key_def)
  ultimately show ?thesis using new by (simp add: question_key_record strip_idem)
qed

lemma dedupe_loop_keys:
  assumes "dinv (seen, out)" and "dedupe_loop (seen, out) its = Inr (seen', out')"
  shows "dinv (seen', out') \<and>
         map question_key out' =
           map question_key out @
             filter (\<lambda>k. k \<notin> set (map question_key out))
               (rev (remdups (rev (filter (\<lambda>k. k \<noteq> Some []) (map item_key its)))))"
  using assms
proof (induction its arbitrary: seen out)
  case Nil
  then show ?case by simp
next
  case (Cons it its)
  from Cons.prems(2) obtain seen1 out1 where
    step: "dedupe_step (seen, out) it = Inr (seen1, out1)" and
    rest: "dedupe_loop (seen1, out1) its = Inr (seen', out')"
    by (auto split: sum.splits)
  have inv1: "dinv (seen1, out1)"
    using dedupe_step_dinv[OF Cons.prems(1) step] .
  from dedupe_step_keys[OF Cons.prems(1) step] obtain k where
    k: "item_key it = Some k" and
    keys1: "map question_key out1 =
             (if k = [] \<or> Some k \<in> set (map question_key out) then map question_key out
              else map question_key out @ [Some k])"
    by blast
  from Cons.IH[OF inv1 rest] have inv': "dinv (seen', out')" and
    keys': "map question_key out' =
           map question_key out1 @
             filter (\<lambda>k. k \<notin> set (map question_key out1))
               (rev (remdups (rev (filter (\<lambda>k. k \<noteq> Some []) (map item_key its)))))"
    by simp_all
  let ?ks = "rev (remdups (rev (filter (\<lambda>k. k \<noteq> Some []) (map item_key its))))"
  have "map question_key out' =
           map question_key out @
             filter (\<lambda>k. k \<notin> set (map question_key out))
               (rev (remdups (rev (filter (\<lambda>k. k \<noteq> Some []) (map item_key (it # its))))))"
  proof (cases "k = []")
    case True
    then show ?thesis using keys' keys1 k by simp
  next
    case False
    note ne = this
    have "filter (\<lambda>k. k \<noteq> Some []) (map item_key (it # its))
          = Some k # filter (\<lambda>k. k \<noteq> Some []) (map item_key its)"
      using k ne by simp
    then have fs: "rev (remdups (rev (filter (\<lambda>k. k \<noteq> Some []) (map item_key (it # its)))))
          = Some k # filter (\<lambda>x. x \<noteq> Some k) ?ks"
      by (simp only: first_seen_Cons)
    show ?thesis
    proof (cases "Some k \<in> set (map question_key out)")
      case True
      have "filter (\<lambda>x. x \<notin> set (map question_key out)) (filter (\<lambda>x. x \<noteq> Some k) ?ks)
            = filter (\<lambda>x. x \<notin> set (map question_key out)) ?ks"
        unfolding filter_filter using True by (intro filter_cong) auto
      then show ?thesis unfolding fs using keys' keys1 ne True
        by (simp del: set_map)
    next
      case False
      have "filter (\<lambda>x. x \<notin> set (map question_key out @ [Some k])) ?ks
            = filter (\<lambda>x. x \<notin> set (map question_key out)) (filter (\<lambda>x. x \<noteq> Some k) ?ks)"
        unfolding filter_filter by (intro filter_cong) auto
      then show ?thesis unfolding fs using keys' keys1 ne False
        by (simp del: set_map)
    qed
  qed
  with inv' show ?case by simp
qed

lemma dinv_distinct:
  assumes "dinv (seen, out)"
  shows "distinct (map question_key out)"
proof -
  have "i = j" if "i < length out" "j < length out" "question_key (out ! i) = question_key (out ! j)" for i j
  proof -
    from assms that(1) obtain k where "question_key (out ! i) = Some k" "seen k = Some i"
      unfolding dinv_def by auto
    moreover from assms that(2) obtain k' where "question_key (out ! j) = Some k'" "seen k' = Some j"
      unfolding dinv_def by auto
    ultimately show ?thesis using that(3) by simp
  qed
  then show ?thesis by (auto simp: distinct_conv_nth)
qed

lemma dinv_nonempty_keys:
  assumes "dinv (seen, out)" and "r \<in> set out"
  shows "\<exists>k. question_key r = Some k \<and> k \<noteq> []"
proof -
  from assms(2) obtain i where "i < length out" "out ! i = r"
    by (auto simp: in_set_conv_nth)
  with assms(1) have "is_record r" unfolding dinv_def by auto
  then show ?thesis by (rule is_record_key)
qed

lemma dedupe_step_total:
  assumes "item_key it = Some k"
  shows "\<exists>st'. dedupe_step st it = Inr st'"
proof -
  obtain seen out where st: "st = (seen, out)" by (cases st)
  from assms obtain d where it: "it = JObj d" by (cases it) simp_all
  with assms obtain s where "dict_get d ''question'' (JStr []) = JStr s"
    by (auto simp: question_key_def split: json.splits)
  then show ?thesis unfolding st it
    by (simp add: Let_def split: option.splits)
qed

lemma dedupe_loop_total:
  assumes "\<forall>it \<in> set its. item_key it \<noteq> None"
  shows "\<exists>st'. dedupe_loop st its = Inr st'"
  using assms
proof (induction its arbitrary: st)
  case Nil
  then show ?case by simp
next
  case (Cons it its)
  then obtain k where "item_key it = Some k" by auto
  from dedupe_step_total[OF this] obtain st1 where "dedupe_step st it = Inr st1" by blast
  moreover from Cons.prems have "\<forall>it \<in> set its. item_key it \<noteq> None" by simp
  from Cons.IH[OF this] obtain st' where "dedupe_loop st1 its = Inr st'" by blast
  ultimately show ?case by simp
qed

lemma dedupe_loop_valid:
  assumes "dedupe_loop st its = Inr st'"
  shows "\<forall>it \<in> set its. item_key it \<noteq> None"
  using assms
proof (induction its arbitrary: st)
  case Nil
  then show ?case by simp
next
  case (Cons it its)
  from Cons.prems obtain st1 where
    step: "dedupe_step st it = Inr st1" and rest: "dedupe_loop st1 its = Inr st'"
    by (auto split: sum.splits)
  obtain seen out where "st = (seen, out)" by (cases st)
  with step have "dedupe_step (seen, out) it = Inr st1" by simp
  then have "item_key it \<noteq> None"
    by (cases rule: dedupe_step_cases) simp_all
  with Cons.IH[OF rest] show ?case by simp
qed

lemma dedupe_loop_append:
  "dedupe_loop st (xs @ ys) =
     (case dedupe_loop st xs of Inl e \<Rightarrow> Inl e | Inr st' \<Rightarrow> dedupe_loop st' ys)"
  by (induction xs arbitrary: st) (auto split: sum.splits)

lemma dedupe_unfold:
  "dedupe (JArr its) = Inr out \<longleftrightarrow>
     (\<exists>seen out0. dedupe_loop (Map.empty, []) its = Inr (seen, out0) \<and> out = map JObj out0)"
  by (auto simp: dedupe_def split: sum.splits)

lemma item_key_map_JObj: "map item_key (map JObj rs) = map question_key rs"
  by simp

lemma dedupe_step_record:
  assumes "is_record r" and "question_key r = Some k" and "seen k = None"
  shows "dedupe_step (seen, out) (JObj r) = Inr (seen(k \<mapsto> length out), out @ [r])"
proof -
  from assms(1) obtain q a opt where
    r: "r = [(''question'', JStr q), (''answer'', a), (''optional'', opt)]"
    and q: "strip q = q" "normalization_key q \<noteq> []"
    by (auto simp: is_record_def)
  from assms(2) have k: "k = normalization_key q"
    by (simp add: r question_key_record q)
  show ?thesis using assms(3) q
    by (simp add: r k dict_get_def Let_def)
qed

lemma dedupe_loop_records:
  assumes "\<forall>r \<in> set rs. is_record r" and "distinct (map question_key rs)"
    and "\<forall>r \<in> set rs. \<forall>k. question_key r = Some k \<longrightarrow> seen k = None"
  shows "\<exists>seen'. dedupe_loop (seen, out) (map JObj rs) = Inr (seen', out @ rs)"
  using assms
proof (induction rs arbitrary: seen out)
  case Nil
  then show ?case by simp
next
  case (Cons r rs)
  from Cons.prems(1) have rec: "is_record r" by simp
  then obtain k where k: "question_key r = Some k" using is_record_key by blast
  with Cons.prems(3) have "seen k = None" by simp
  with rec k
  have step: "dedupe_step (seen, out) (JObj r) = Inr (seen(k \<mapsto> length out), out @ [r])"
    by (rule dedupe_step_record)
  have p1: "\<forall>r \<in> set rs. is_record r" using Cons.prems(1) by simp
  have p2: "distinct (map question_key rs)" using Cons.prems(2) by simp
  have p3: "\<forall>r' \<in> set rs. \<forall>k'. question_key r' = Some k' \<longrightarrow> (seen(k \<mapsto> length out)) k' = None"
  proof (intro ballI allI impI)
    fix r' k' assume r': "r' \<in> set rs" and k': "question_key r' = Some k'"
    from Cons.prems(2) r' have "question_key r \<noteq> question_key r'" by auto
    with k k' have "k' \<noteq> k" by auto
    moreover from Cons.prems(3) r' k' have "seen k' = None" by simp
    ultimately show "(seen(k \<mapsto> length out)) k' = None" by simp
  qed
  from Cons.IH[OF p1 p2 p3]
  obtain seen' where "dedupe_loop (seen(k \<mapsto> length out), out @ [r]) (map JObj rs) = Inr (seen', (out @ [r]) @ rs)"
    by blast
  with step show ?case by simp
qed

lemma dedupe_step_skip:
  assumes "item_key it = Some []"
  shows "dedupe_step st it = Inr st"
proof -
  obtain seen out where st: "st = (seen, out)" by (cases st)
  from assms obtain d where it: "it = JObj d" by (cases it) simp_all
  with assms obtain s where "dict_get d ''question'' (JStr []) = JStr s" "normalization_key (strip s) = []"
    by (auto simp: question_key_def split: json.splits)
  then show ?thesis unfolding st it by simp
qed

lemma dedupe_loop_skip:
  assumes "item_key it = Some []"
  shows "dedupe_loop st (xs @ it # ys) = dedupe_loop st (xs @ ys)"
  by (simp add: dedupe_loop_append dedupe_step_skip[OF assms] split: sum.splits)

lemma item_key_missing: "map_of d ''question'' = None \<Longrightarrow> item_key (JObj d) = Some []"
  by (simp add: question_key_def dict_get_def strip_Nil normalization_key_Nil)

lemma item_key_spaces:
  "map_of d ''question'' = Some (JStr s) \<Longrightarrow> \<forall>c \<in> set s. isspace c \<Longrightarrow> item_key (JObj d) = Some []"
  by (simp add: question_key_def dict_get_def strip_spaces normalization_key_Nil)

lemma dedupe_out_keys:
  assumes "dedupe items = Inr out" and "r \<in> set out"
  shows "\<exists>k. item_key r = Some k \<and> k \<noteq> []"
proof -
  from assms obtain its seen out0 where
    loop: "dedupe_loop (Map.empty, []) its = Inr (seen, out0)" and out: "out = map JObj out0"
    by (auto simp: dedupe_def split: sum.splits)
  from dedupe_loop_keys[OF dinv_empty loop] have inv: "dinv (seen, out0)" by simp
  from assms(2) out obtain r0 where "r = JObj r0" "r0 \<in> set out0" by auto
  with dinv_nonempty_keys[OF inv] show ?thesis by simp
qed

lemma dedupe_step_frame:
  assumes inv: "dinv (seen, out)" and step: "dedupe_step (seen, out) it = Inr (seen', out')"
    and other: "item_key it \<noteq> Some k" and at: "seen k = Some i"
  shows "seen' k = Some i \<and> out' ! i = out ! i"
  using step
proof (cases rule: dedupe_step_cases)
  case (skip d)
  then show ?thesis using at by simp
next
  case (merge d k' j)
  from other merge have "k' \<noteq> k" by auto
  moreover from inv at have "question_key (out ! i) = Some k" by (simp add: dinv_def)
  moreover from inv merge(4) have "question_key (out ! j) = Some k'" by (simp add: dinv_def)
  ultimately have "j \<noteq> i" by auto
  then show ?thesis using merge at by simp
next
  case (new d k' s)
  from other new have "k' \<noteq> k" by auto
  moreover from inv at have "i < length out" by (simp add: dinv_def)
  ultimately show ?thesis using new at by (simp add: nth_append)
qed

lemma dedupe_loop_frame:
  assumes "dinv (seen, out)" and "dedupe_loop (seen, out) its = Inr (seen', out')"
    and "\<forall>it \<in> set its. item_key it \<noteq> Some k" and "seen k = Some i"
  shows "seen' k = Some i \<and> out' ! i = out ! i"
  using assms
proof (induction its arbitrary: seen out)
  case Nil
  then show ?case by simp
next
  case (Cons it its)
  from Cons.prems(2) obtain seen1 out1 where
    step: "dedupe_step (seen, out) it = Inr (seen1, out1)" and
    rest: "dedupe_loop (seen1, out1) its = Inr (seen', out')"
    by (auto split: sum.splits)
  have inv1: "dinv (seen1, out1)"
    using dedupe_step_dinv[OF Cons.prems(1) step] .
  from Cons.prems(3) have o1: "item_key it \<noteq> Some k" and o2: "\<forall>it \<in> set its. item_key it \<noteq> Some k"
    by simp_all
  from dedupe_step_frame[OF Cons.prems(1) step o1 Cons.prems(4)]
  have s1: "seen1 k = Some i" and e1: "out1 ! i = out ! i" by simp_all
  from Cons.IH[OF inv1 rest o2 s1] e1 show ?case by simp
qed

lemma dedupe_loop_absent:
  assumes "dinv (seen, out)" and "dedupe_loop (seen, out) its = Inr (seen', out')"
    and "\<forall>it \<in> set its. item_key it \<noteq> Some k" and "seen k = None"
  shows "seen' k = None"
proof -
  from dedupe_loop_keys[OF assms(1,2)] have inv': "dinv (seen', out')" and
    keys: "map question_key out' =
           map question_key out @
             filter (\<lambda>k. k \<notin> set (map question_key out))
               (rev (remdups (rev (filter (\<lambda>k. k \<noteq> Some []) (map item_key its)))))"
    by simp_all
  from assms(4) have "Some k \<notin> set (map question_key out)"
    using dinv_seen_iff[OF assms(1), of k] by simp
  moreover from assms(3) have "Some k \<notin> set (map item_key its)" by auto
  ultimately have "Some k \<notin> set (map question_key out')"
    unfolding keys by auto
  then show ?thesis using dinv_seen_iff[OF inv', of k] by auto
qed

lemma filter_distinct_nth:
  assumes "distinct (map f xs)" and "i < length xs" and "f (xs ! i) = v"
  shows "filter (\<lambda>x. f x = v) xs = [xs ! i]"
  using assms
proof (induction xs arbitrary: i)
  case Nil
  then show ?case by simp
next
  case (Cons x xs)
  show ?case
  proof (cases i)
    case 0
    with Cons.prems have "f x = v" "\<forall>y \<in> set xs. f y \<noteq> v" by (auto simp: image_iff)
    then show ?thesis using 0 by (simp add: filter_empty_conv)
  next
    case (Suc j)
    with Cons.prems have "f x \<noteq> v" by auto
    moreover from Cons.IH[of j] Cons.prems Suc have "filter (\<lambda>x. f x = v) xs = [xs ! j]" by simp
    ultimately show ?thesis using Suc by simp
  qed
qed

text \<open>The record kept for a key seen exactly twice.\<close>

lemma dedupe_pair:
  assumes pre: "\<forall>it \<in> set pre. item_key it \<noteq> None \<and> item_key it \<noteq> Some k"
    and mid: "\<forall>it \<in> set mid. item_key it \<noteq> None \<and> item_key it \<noteq> Some k"
    and post: "\<forall>it \<in> set post. item_key it \<noteq> None \<and> item_key it \<noteq> Some k"
    and f: "question_key f = Some k" and s: "question_key s = Some k" and k: "k \<noteq> []"
    and qf: "dict_get f ''question'' (JStr []) = JStr q"
  shows "\<exists>out. dedupe (JArr (pre @ JObj f # mid @ JObj s # post)) = Inr out
           \<and> filter (\<lambda>r. item_key r = Some k) out =
               [JObj (merged [(''question'', JStr (strip q)),
                              (''answer'', dict_get f ''answer'' (JStr [])),
                              (''optional'', dict_get f ''optional'' (JBool False))] s)]"
proof -
  let ?obj = "[(''question'', JStr (strip q)),
               (''answer'', dict_get f ''answer'' (JStr [])),
               (''optional'', dict_get f ''optional'' (JBool False))]"
  from pre have "\<forall>it \<in> set pre. item_key it \<noteq> None" by simp
  from dedupe_loop_total[OF this] obtain seen1 out1 where
    l1: "dedupe_loop (Map.empty, []) pre = Inr (seen1, out1)" by (metis surj_pair)
  from dedupe_loop_keys[OF dinv_empty l1] have inv1: "dinv (seen1, out1)" by simp
  from pre have pre': "\<forall>it \<in> set pre. item_key it \<noteq> Some k" by simp
  have a1: "seen1 k = None"
    using dedupe_loop_absent[OF dinv_empty l1 pre'] by simp
  have l2: "dedupe_step (seen1, out1) (JObj f) = Inr (seen1(k \<mapsto> length out1), out1 @ [?obj])"
    using f k a1 qf by (simp add: question_key_def Let_def)
  let ?n = "length out1"
  have inv2: "dinv (seen1(k \<mapsto> ?n), out1 @ [?obj])"
    using dedupe_step_dinv[OF inv1 l2] .
  from mid have "\<forall>it \<in> set mid. item_key it \<noteq> None" by simp
  from dedupe_loop_total[OF this] obtain seen3 out3 where
    l3: "dedupe_loop (seen1(k \<mapsto> ?n), out1 @ [?obj]) mid = Inr (seen3, out3)" by (metis surj_pair)
  from dedupe_loop_keys[OF inv2 l3] have inv3: "dinv (seen3, out3)" by simp
  from mid have mid': "\<forall>it \<in> set mid. item_key it \<noteq> Some k" by simp
  have "(seen1(k \<mapsto> ?n)) k = Some ?n" by simp
  from dedupe_loop_frame[OF inv2 l3 mid' this]
  have s3: "seen3 k = Some ?n" and e3: "out3 ! ?n = ?obj" by simp_all
  have l4: "dedupe_step (seen3, out3) (JObj s) = Inr (seen3, out3[?n := merged ?obj s])"
  proof -
    from s obtain t where "dict_get s ''question'' (JStr []) = JStr t" "normalization_key (strip t) = k"
      by (auto simp: question_key_def split: json.splits)
    then show ?thesis using k s3 e3
      by (simp add: Let_def merged_def)
  qed
  have inv4: "dinv (seen3, out3[?n := merged ?obj s])"
    using dedupe_step_dinv[OF inv3 l4] .
  from inv3 s3 have n3: "?n < length out3" by (simp add: dinv_def)
  from post have "\<forall>it \<in> set post. item_key it \<noteq> None" by simp
  from dedupe_loop_total[OF this] obtain seen5 out5 where
    l5: "dedupe_loop (seen3, out3[?n := merged ?obj s]) post = Inr (seen5, out5)" by (metis surj_pair)
  from dedupe_loop_keys[OF inv4 l5] have inv5: "dinv (seen5, out5)" by simp
  from post have post': "\<forall>it \<in> set post. item_key it \<noteq> Some k" by simp
  from dedupe_loop_frame[OF inv4 l5 post' s3] n3
  have s5: "seen5 k = Some ?n" and e5: "out5 ! ?n = merged ?obj s" by simp_all
  from inv5 s5 have n5: "?n < length out5" and k5: "question_key (out5 ! ?n) = Some k"
    by (simp_all add: dinv_def)
  have "filter (\<lambda>r. question_key r = Some k) out5 = [out5 ! ?n]"
    using filter_distinct_nth[OF dinv_distinct[OF inv5] n5 k5] .
  then have "filter (\<lambda>r. item_key r = Some k) (map JObj out5) = [JObj (merged ?obj s)]"
    by (simp add: filter_map comp_def e5)
  moreover have "dedupe_loop (Map.empty, []) (pre @ JObj f # mid @ JObj s # post) = Inr (seen5, out5)"
    using l1 l2 l3 l4 l5 by (simp add: dedupe_loop_append)
  then have "dedupe (JArr (pre @ JObj f # mid @ JObj s # post)) = Inr (map JObj out5)"
    by (simp add: dedupe_def)
  ultimately show ?thesis by blast
qed

subsection \<open>The interactive filler\<close>

lemma fill_item_text:
  assumes "map_of d ''question'' = Some (JStr q)" and "map_of d ''answer'' = Some (JStr a)"
    and "stdin W = l # ls"
  shows "fill_item (JObj d) W =
     (Inr (JObj (if strip l = [] then d else dict_set d ''answer'' (JStr (strip l)))),
      W\<lparr>stdin := ls,
        stdout := stdout W @ NL # ''Question: '' @ q @ [NL]
                    @ ''R'' @ [e_acute] @ ''ponse actuelle: '' @ (if a = [] then ''<vide>'' else a) @ [NL]
                    @ ''Nouvelle r'' @ [e_acute] @ ''ponse (ENTER pour garder): ''\<rparr>)"
  using assms
  by (simp add: fill_item_def print_def py_input_def py_or_def Let_def)

lemma interactive_fill_text:
  assumes "map (\<lambda>d. map_of d ''question'') ds = map (\<lambda>q. Some (JStr q)) qs"
    and "map (\<lambda>d. map_of d ''answer'') ds = map (\<lambda>a. Some (JStr a)) as"
    and "stdin W = ls @ rest" and "length ls = length ds"
  shows "interactive_fill (map JObj ds) W =
     (Inr (map (\<lambda>(d, l). JObj (if strip l = [] then d else dict_set d ''answer'' (JStr (strip l))))
             (zip ds ls)),
      W\<lparr>stdin := rest,
        stdout := stdout W @ concat (map (\<lambda>(q, a).
                    NL # ''Question: '' @ q @ [NL]
                    @ ''R'' @ [e_acute] @ ''ponse actuelle: '' @ (if a = [] then ''<vide>'' else a) @ [NL]
                    @ ''Nouvelle r'' @ [e_acute] @ ''ponse (ENTER pour garder): '') (zip qs as))\<rparr>)"
  using assms
proof (induction ds arbitrary: qs as ls W)
  case Nil
  then show ?case by simp
next
  case (Cons d ds)
  from Cons.prems(1) obtain q qs' where qs: "qs = q # qs'" "map_of d ''question'' = Some (JStr q)"
    "map (\<lambda>d. map_of d ''question'') ds = map (\<lambda>q. Some (JStr q)) qs'"
    by (cases qs) auto
  from Cons.prems(2) obtain a as' where as: "as = a # as'" "map_of d ''answer'' = Some (JStr a)"
    "map (\<lambda>d. map_of d ''answer'') ds = map (\<lambda>a. Some (JStr a)) as'"
    by (cases as) auto
  from Cons.prems(4) obtain l ls' where ls: "ls = l # ls'" "length ls' = length ds"
    by (cases ls) auto
  with Cons.prems(3) have in1: "stdin W = l # (ls' @ rest)" by simp
  let ?W1 = "W\<lparr>stdin := ls' @ rest,
        stdout := stdout W @ NL # ''Question: '' @ q @ [NL]
                    @ ''R'' @ [e_acute] @ ''ponse actuelle: '' @ (if a = [] then ''<vide>'' else a) @ [NL]
                    @ ''Nouvelle r'' @ [e_acute] @ ''ponse (ENTER pour garder): ''\<rparr>"
  have step: "fill_item (JObj d) W =
     (Inr (JObj (if strip l = [] then d else dict_set d ''answer'' (JStr (strip l)))), ?W1)"
    by (rule fill_item_text[OF qs(2) as(2) in1])
  have "stdin ?W1 = ls' @ rest" by simp
  from Cons.IH[OF qs(3) as(3) this ls(2)] step
  show ?case by (simp add: qs(1) as(1) ls(1))
qed

lemma fill_item_frame:
  assumes "fill_item it W = (Inr it', W')"
  shows "\<exists>d d'. it = JObj d \<and> it' = JObj d' \<and> map fst d' = map fst d
           \<and> (\<forall>k. k \<noteq> ''answer'' \<longrightarrow> map_of d' k = map_of d k) \<and> files W' = files W"
proof -
  from assms obtain d where it: "it = JObj d"
    by (cases it) (simp_all add: fill_item_def)
  from assms it obtain av where av: "map_of d ''answer'' = Some av"
    by (auto simp: fill_item_def Let_def split: sum.splits option.splits)
  then have "''answer'' \<in> set (map fst d)"
    by (metis map_of_eq_None_iff option.distinct(1) set_map)
  then have keys: "map fst (dict_set d ''answer'' v) = map fst d" for v
    by (simp add: dict_set_def update_keys)
  have other: "map_of (dict_set d ''answer'' v) k = map_of d k" if "k \<noteq> ''answer''" for v k
    using that by (simp add: dict_set_def update_conv)
  from assms it have "(it' = JObj d \<or> (\<exists>v. it' = JObj (dict_set d ''answer'' v))) \<and> files W' = files W"
    by (auto simp: fill_item_def Let_def print_def py_input_def
             split: sum.splits option.splits list.splits if_splits)
  with it keys other show ?thesis by auto
qed

lemma interactive_fill_frame_all:
  assumes "interactive_fill items W = (Inr items', W')"
  shows "length items' = length items
         \<and> (\<forall>i < length items. \<exists>d d'. items ! i = JObj d \<and> items' ! i = JObj d'
               \<and> map fst d' = map fst d
               \<and> (\<forall>k. k \<noteq> ''answer'' \<longrightarrow> map_of d' k = map_of d k))
         \<and> files W' = files W"
  using assms
proof (induction items arbitrary: W items')
  case Nil
  then show ?case by simp
next
  case (Cons it items)
  from Cons.prems obtain it1 W1 its1 where
    step: "fill_item it W = (Inr it1, W1)" and
    rest: "interactive_fill items W1 = (Inr its1, W')" and
    res: "items' = it1 # its1"
    by (auto split: prod.splits sum.splits)
  from fill_item_frame[OF step] obtain d d' where
    d: "it = JObj d" "it1 = JObj d'" "map fst d' = map fst d"
       "\<forall>k. k \<noteq> ''answer'' \<longrightarrow> map_of d' k = map_of d k" "files W1 = files W"
    by blast
  from Cons.IH[OF rest] have ih: "length its1 = length items"
     "\<forall>i < length items. \<exists>d d'. items ! i = JObj d \<and> its1 ! i = JObj d'
               \<and> map fst d' = map fst d
               \<and> (\<forall>k. k \<noteq> ''answer'' \<longrightarrow> map_of d' k = map_of d k)"
     "files W' = files W1"
    by simp_all
  have "\<exists>d d'. (it # items) ! i = JObj d \<and> (it1 # its1) ! i = JObj d'
               \<and> map fst d' = map fst d
               \<and> (\<forall>k. k \<noteq> ''answer'' \<longrightarrow> map_of d' k = map_of d k)"
    if "i < length (it # items)" for i
  proof (cases i)
    case 0
    then show ?thesis using d by simp
  next
    case (Suc j)
    with that ih(2) show ?thesis by simp
  qed
  with ih(1,3) d(5) res show ?case by simp
qed

subsection \<open>The tools\<close>





lemma digits_one: "digits 1 = ''1''"
  by code_simp

lemma digits_Suc_0: "digits (Suc 0) = ''1''"
  by code_simp

section \<open>The deduplicator: keys are unique and keep first-seen order\<close>

text \<open>
  Claim C3. For every input list on which \<^verbatim>\<open>dedupe\<close> returns (every item is a dict whose
  question, if present, is a string), the normalization keys of the output are pairwise
  distinct, and they are the non-empty keys of the input in the order of their first
  occurrence: \<open>remdups\<close> keeps the last occurrence of each element, so on the reversed
  list it keeps the first.
\<close>

theorem dedupe_keys_first_seen:
  assumes "\<forall>it \<in> set its. item_key it \<noteq> None"
  shows "\<exists>out. dedupe (JArr its) = Inr out
           \<and> distinct (map item_key out)
           \<and> map item_key out =
               rev (remdups (rev (filter (\<lambda>k. k \<noteq> Some []) (map item_key its))))"
proof -
  from dedupe_loop_total[OF assms] obtain seen out0 where
    loop: "dedupe_loop (Map.empty, []) its = Inr (seen, out0)"
    by (metis surj_pair)
  from dedupe_loop_keys[OF dinv_empty loop] have
    inv: "dinv (seen, out0)" and
    keys: "map question_key out0 =
             rev (remdups (rev (filter (\<lambda>k. k \<noteq> Some []) (map item_key its))))"
    by simp_all
  have "dedupe (JArr its) = Inr (map JObj out0)"
    using loop by (simp add: dedupe_def)
  moreover have "distinct (map item_key (map JObj out0))"
    using dinv_distinct[OF inv] by (simp only: item_key_map_JObj)
  moreover have "map item_key (map JObj out0) =
      rev (remdups (rev (filter (\<lambda>k. k \<noteq> Some []) (map item_key its))))"
    using keys by (simp only: item_key_map_JObj)
  ultimately show ?thesis by blast
qed

theorem dedupe_keys_first_seen_witness:
  "list_all (\<lambda>it. item_key it \<noteq> None)
      [JObj [(''question'', JStr ''What color?''), (''answer'', JStr '''')],
       JObj [(''question'', JStr '' Size ''), (''answer'', JStr ''L'')],
       JObj [(''question'', JStr ''what   COLOR?''), (''answer'', JStr ''Blue'')],
       JObj [(''question'', JStr ''   '')]]
   \<and> (\<exists>out. dedupe (JArr [JObj [(''question'', JStr ''What color?''), (''answer'', JStr '''')],
                  JObj [(''question'', JStr '' Size ''), (''answer'', JStr ''L'')],
                  JObj [(''question'', JStr ''what   COLOR?''), (''answer'', JStr ''Blue'')],
                  JObj [(''question'', JStr ''   '')]]) = Inr out
          \<and> distinct (map item_key out)
          \<and> map item_key out = [Some ''what color?'', Some ''size''])"
proof -
  let ?its = "[JObj [(''question'', JStr ''What color?''), (''answer'', JStr '''')],
               JObj [(''question'', JStr '' Size ''), (''answer'', JStr ''L'')],
               JObj [(''question'', JStr ''what   COLOR?''), (''answer'', JStr ''Blue'')],
               JObj [(''question'', JStr ''   '')]]"
  have h: "\<forall>it \<in> set ?its. item_key it \<noteq> None"
    by (simp add: question_key_def dict_get_def)
  have e: "rev (remdups (rev (filter (\<lambda>k. k \<noteq> Some []) (map item_key ?its))))
           = [Some ''what color?'', Some ''size'']"
    by code_simp
  from dedupe_keys_first_seen[OF h] h e show ?thesis by simp
qed

section \<open>The deduplicator: merging, idempotence, empty questions\<close>

text \<open>
  Claim C1, as amended. Take an input list in which exactly two records \<open>f\<close> (the earlier) and \<open>s\<close>
  (the later) have the non-empty normalization key \<open>k\<close>; one of them, \<open>ra\<close>, has a
  non-empty answer \<open>a\<close> (such as \<^verbatim>\<open>"A"\<close>) and optional false, the other, \<open>rb\<close>, has
  answer \<^verbatim>\<open>""\<close> and optional true. Whichever of the two comes first, \<^verbatim>\<open>dedupe\<close> returns
  a list with exactly one record of key \<open>k\<close>: the stripped question of the earlier
  record, answer \<open>a\<close>, optional true.
\<close>

theorem dedupe_merge_pair:
  assumes order: "(ra = f \<and> rb = s) \<or> (ra = s \<and> rb = f)"
    and keys: "question_key f = Some k" "question_key s = Some k" "k \<noteq> []"
    and q: "dict_get f ''question'' (JStr []) = JStr q"
    and ra: "map_of ra ''answer'' = Some (JStr a)" "a \<noteq> []"
            "map_of ra ''optional'' = Some (JBool False)"
    and rb: "map_of rb ''answer'' = Some (JStr [])" "map_of rb ''optional'' = Some (JBool True)"
    and others: "\<forall>it \<in> set (pre @ mid @ post). item_key it \<noteq> None \<and> item_key it \<noteq> Some k"
  shows "\<exists>out. dedupe (JArr (pre @ JObj f # mid @ JObj s # post)) = Inr out
           \<and> filter (\<lambda>r. item_key r = Some k) out =
               [JObj [(''question'', JStr (strip q)), (''answer'', JStr a),
                      (''optional'', JBool True)]]"
proof -
  let ?obj = "[(''question'', JStr (strip q)),
               (''answer'', dict_get f ''answer'' (JStr [])),
               (''optional'', dict_get f ''optional'' (JBool False))]"
  from others have
    "\<forall>it \<in> set pre. item_key it \<noteq> None \<and> item_key it \<noteq> Some k"
    "\<forall>it \<in> set mid. item_key it \<noteq> None \<and> item_key it \<noteq> Some k"
    "\<forall>it \<in> set post. item_key it \<noteq> None \<and> item_key it \<noteq> Some k"
    by simp_all
  from dedupe_pair[OF this keys q] obtain out where
    out: "dedupe (JArr (pre @ JObj f # mid @ JObj s # post)) = Inr out"
         "filter (\<lambda>r. item_key r = Some k) out = [JObj (merged ?obj s)]"
    by blast
  have "merged ?obj s = [(''question'', JStr (strip q)), (''answer'', JStr a),
                         (''optional'', JBool True)]"
    using order
  proof
    assume "ra = f \<and> rb = s"
    with ra rb show ?thesis
      by (simp add: merged_def dict_get_def dict_set_def py_or_def)
  next
    assume "ra = s \<and> rb = f"
    with ra rb show ?thesis
      by (simp add: merged_def dict_get_def dict_set_def py_or_def)
  qed
  with out show ?thesis by simp
qed

theorem dedupe_merge_pair_witness:
  "(\<exists>out. dedupe (JArr [JObj [(''question'', JStr ''What color?''), (''answer'', JStr ''A''),
                               (''optional'', JBool False)],
                         JObj [(''question'', JStr ''what   color?''), (''answer'', JStr []),
                               (''optional'', JBool True)]]) = Inr out
      \<and> filter (\<lambda>r. item_key r = Some ''what color?'') out =
          [JObj [(''question'', JStr ''What color?''), (''answer'', JStr ''A''),
                 (''optional'', JBool True)]])
   \<and> (\<exists>out. dedupe (JArr [JObj [(''question'', JStr ''what   color?''), (''answer'', JStr []),
                               (''optional'', JBool True)],
                         JObj [(''question'', JStr ''What color?''), (''answer'', JStr ''A''),
                               (''optional'', JBool False)]]) = Inr out
      \<and> filter (\<lambda>r. item_key r = Some ''what color?'') out =
          [JObj [(''question'', JStr ''what   color?''), (''answer'', JStr ''A''),
                 (''optional'', JBool True)]])"
proof -
  let ?A = "[(''question'', JStr ''What color?''), (''answer'', JStr ''A''),
             (''optional'', JBool False)]"
  let ?B = "[(''question'', JStr ''what   color?''), (''answer'', JStr []),
             (''optional'', JBool True)]"
  have kA: "question_key ?A = Some ''what color?''" by code_simp
  have kB: "question_key ?B = Some ''what color?''" by code_simp
  have sA: "strip ''What color?'' = ''What color?''" by code_simp
  have sB: "strip ''what   color?'' = ''what   color?''" by code_simp
  have 1: "\<exists>out. dedupe (JArr ([] @ JObj ?A # [] @ JObj ?B # [])) = Inr out
      \<and> filter (\<lambda>r. item_key r = Some ''what color?'') out =
          [JObj [(''question'', JStr (strip ''What color?'')), (''answer'', JStr ''A''),
                 (''optional'', JBool True)]]"
    by (rule dedupe_merge_pair[where ra = ?A and rb = ?B])
       (simp_all add: kA kB dict_get_def)
  have 2: "\<exists>out. dedupe (JArr ([] @ JObj ?B # [] @ JObj ?A # [])) = Inr out
      \<and> filter (\<lambda>r. item_key r = Some ''what color?'') out =
          [JObj [(''question'', JStr (strip ''what   color?'')), (''answer'', JStr ''A''),
                 (''optional'', JBool True)]]"
    by (rule dedupe_merge_pair[where ra = ?A and rb = ?B])
       (simp_all add: kA kB dict_get_def)
  from 1 2 show ?thesis by (simp add: sA sB)
qed

text \<open>
  The claim as stated, for every pair of records of the input with one key, fails in two
  ways. When a third record of that key comes before the pair with a non-empty answer,
  that answer is kept (lines 32-33 fill an answer only when the kept one is empty). When
  the common key is empty, both records are skipped and no record is produced.
\<close>

theorem dedupe_merge_pair_counterexample:
  "dedupe (JArr [JObj [(''question'', JStr ''Color?''), (''answer'', JStr ''B''),
                       (''optional'', JBool False)],
                 JObj [(''question'', JStr ''color?''), (''answer'', JStr ''A''),
                       (''optional'', JBool False)],
                 JObj [(''question'', JStr ''COLOR?''), (''answer'', JStr []),
                       (''optional'', JBool True)]])
     = Inr [JObj [(''question'', JStr ''Color?''), (''answer'', JStr ''B''),
                  (''optional'', JBool True)]]
   \<and> dedupe (JArr [JObj [(''question'', JStr ''  ''), (''answer'', JStr ''A''),
                         (''optional'', JBool False)],
                   JObj [(''question'', JStr '' ''), (''answer'', JStr []),
                         (''optional'', JBool True)]])
     = Inr []"
  by code_simp

text \<open>
  Claim C2. \<^verbatim>\<open>dedupe\<close> is idempotent: whatever the input, when \<^verbatim>\<open>dedupe\<close> returns a list,
  \<^verbatim>\<open>dedupe\<close> of that list returns it unchanged.
\<close>

theorem dedupe_idempotent:
  assumes "dedupe items = Inr out"
  shows "dedupe (JArr out) = Inr out"
proof -
  from assms obtain its seen out0 where
    loop: "dedupe_loop (Map.empty, []) its = Inr (seen, out0)" and out: "out = map JObj out0"
    by (auto simp: dedupe_def split: sum.splits)
  from dedupe_loop_keys[OF dinv_empty loop] have inv: "dinv (seen, out0)" by simp
  have "\<forall>r \<in> set out0. is_record r"
    using inv by (auto simp: dinv_def in_set_conv_nth)
  moreover have "distinct (map question_key out0)"
    using dinv_distinct[OF inv] .
  ultimately obtain seen' where
    "dedupe_loop (Map.empty, []) (map JObj out0) = Inr (seen', [] @ out0)"
    using dedupe_loop_records[of out0 Map.empty "[]"] by auto
  then show ?thesis by (simp add: dedupe_def out)
qed

theorem dedupe_idempotent_witness:
  "dedupe (JArr [JObj [(''question'', JStr '' What color? ''), (''optional'', JBool False)],
                 JObj [(''question'', JStr ''Size''), (''answer'', JStr ''L'')],
                 JObj [(''question'', JStr ''what   color?''), (''answer'', JStr ''Blue''),
                       (''optional'', JBool True)]])
     = Inr [JObj [(''question'', JStr ''What color?''), (''answer'', JStr ''Blue''),
                  (''optional'', JBool True)],
            JObj [(''question'', JStr ''Size''), (''answer'', JStr ''L''),
                  (''optional'', JBool False)]]
   \<and> dedupe (JArr [JObj [(''question'', JStr ''What color?''), (''answer'', JStr ''Blue''),
                         (''optional'', JBool True)],
                   JObj [(''question'', JStr ''Size''), (''answer'', JStr ''L''),
                         (''optional'', JBool False)]])
     = Inr [JObj [(''question'', JStr ''What color?''), (''answer'', JStr ''Blue''),
                  (''optional'', JBool True)],
            JObj [(''question'', JStr ''Size''), (''answer'', JStr ''L''),
                  (''optional'', JBool False)]]"
proof -
  have h: "dedupe (JArr [JObj [(''question'', JStr '' What color? ''), (''optional'', JBool False)],
                 JObj [(''question'', JStr ''Size''), (''answer'', JStr ''L'')],
                 JObj [(''question'', JStr ''what   color?''), (''answer'', JStr ''Blue''),
                       (''optional'', JBool True)]])
     = Inr [JObj [(''question'', JStr ''What color?''), (''answer'', JStr ''Blue''),
                  (''optional'', JBool True)],
            JObj [(''question'', JStr ''Size''), (''answer'', JStr ''L''),
                  (''optional'', JBool False)]]"
    by code_simp
  from dedupe_idempotent[OF h] h show ?thesis by simp
qed

text \<open>
  Claim C4. A record whose question normalizes to the empty string (a question of
  whitespace only, or no question field: \<open>item_key_spaces\<close>, \<open>item_key_missing\<close>)
  leaves the loop state as it is: \<^verbatim>\<open>dedupe\<close> gives the same result, error or list, as on
  the input without that record, so the record takes part in no merge and adds nothing
  to the length of the output, and it is not an element of the output.
\<close>

theorem empty_key_dropped:
  assumes "item_key it = Some []"
  shows "dedupe (JArr (xs @ it # ys)) = dedupe (JArr (xs @ ys))
         \<and> (\<forall>out. dedupe (JArr (xs @ it # ys)) = Inr out \<longrightarrow> it \<notin> set out)"
proof -
  have "dedupe (JArr (xs @ it # ys)) = dedupe (JArr (xs @ ys))"
    by (simp add: dedupe_def dedupe_loop_skip[OF assms])
  moreover have "it \<notin> set out" if "dedupe (JArr (xs @ it # ys)) = Inr out" for out
    using dedupe_out_keys[OF that, of it] assms by auto
  ultimately show ?thesis by blast
qed

theorem empty_key_dropped_witness:
  "item_key (JObj [(''question'', JStr ''   ''), (''answer'', JStr ''lost'')]) = Some []
   \<and> item_key (JObj [(''answer'', JStr ''lost'')]) = Some []
   \<and> dedupe (JArr [JObj [(''question'', JStr ''Size''), (''answer'', JStr [])],
                   JObj [(''question'', JStr ''   ''), (''answer'', JStr ''lost'')],
                   JObj [(''answer'', JStr ''lost'')],
                   JObj [(''question'', JStr ''size''), (''answer'', JStr ''L'')]])
     = Inr [JObj [(''question'', JStr ''Size''), (''answer'', JStr ''L''),
                  (''optional'', JBool False)]]"
proof -
  let ?w = "JObj [(''question'', JStr ''   ''), (''answer'', JStr ''lost'')]"
  let ?m = "JObj [(''answer'', JStr ''lost'')]"
  let ?a = "JObj [(''question'', JStr ''Size''), (''answer'', JStr [])]"
  let ?b = "JObj [(''question'', JStr ''size''), (''answer'', JStr ''L'')]"
  have w: "item_key ?w = Some []"
    by (rule item_key_spaces[where s = "''   ''"]) (simp_all add: isspace_def)
  have m: "item_key ?m = Some []"
    by (rule item_key_missing) simp
  have "dedupe (JArr ([?a] @ ?w # [?m, ?b])) = dedupe (JArr ([?a] @ [?m, ?b]))"
    using empty_key_dropped[OF w, of "[?a]" "[?m, ?b]"] by blast
  moreover have "dedupe (JArr ([?a] @ ?m # [?b])) = dedupe (JArr ([?a] @ [?b]))"
    using empty_key_dropped[OF m, of "[?a]" "[?b]"] by blast
  moreover have "dedupe (JArr ([?a] @ [?b]))
      = Inr [JObj [(''question'', JStr ''Size''), (''answer'', JStr ''L''),
                   (''optional'', JBool False)]]"
    by code_simp
  ultimately show ?thesis using w m by simp
qed

section \<open>The interactive filler\<close>

text \<open>
  Claim C7. The filler is run on records \<open>ds\<close> whose questions \<open>qs\<close> and answers \<open>as\<close> are
  strings, with one input line in \<open>ls\<close> for each record. It returns; a record whose line
  is empty after \<^verbatim>\<open>strip()\<close> is left as it is, otherwise its answer becomes the stripped
  line; and what is written for a record shows its current answer, or \<^verbatim>\<open><vide>\<close> when
  that answer is empty.
\<close>

theorem interactive_fill_answers:
  assumes qs: "map (\<lambda>d. map_of d ''question'') ds = map (\<lambda>q. Some (JStr q)) qs"
    and as: "map (\<lambda>d. map_of d ''answer'') ds = map (\<lambda>a. Some (JStr a)) as"
    and input: "stdin W = ls @ rest" "length ls = length ds"
  shows "\<exists>items' W'. interactive_fill (map JObj ds) W = (Inr items', W')
     \<and> items' = map (\<lambda>(d, l). JObj (if strip l = [] then d else dict_set d ''answer'' (JStr (strip l))))
                  (zip ds ls)
     \<and> map (\<lambda>it. subscript it ''answer'') items'
         = map (\<lambda>(a, l). Inr (JStr (if strip l = [] then a else strip l))) (zip as ls)
     \<and> stdin W' = rest
     \<and> stdout W' = stdout W @ concat (map (\<lambda>(q, a).
                    NL # ''Question: '' @ q @ [NL]
                    @ ''R'' @ [e_acute] @ ''ponse actuelle: '' @ (if a = [] then ''<vide>'' else a) @ [NL]
                    @ ''Nouvelle r'' @ [e_acute] @ ''ponse (ENTER pour garder): '') (zip qs as))"
proof -
  let ?items' = "map (\<lambda>(d, l). JObj (if strip l = [] then d else dict_set d ''answer'' (JStr (strip l))))
                  (zip ds ls)"
  from as have len: "length as = length ds"
    by (metis length_map)
  have "map (\<lambda>it. subscript it ''answer'') ?items'
         = map (\<lambda>(a, l). Inr (JStr (if strip l = [] then a else strip l))) (zip as ls)"
  proof (rule nth_equalityI)
    show "length (map (\<lambda>it. subscript it ''answer'') ?items')
          = length (map (\<lambda>(a, l). Inr (JStr (if strip l = [] then a else strip l))) (zip as ls))"
      using len input(2) by simp
  next
    fix i assume "i < length (map (\<lambda>it. subscript it ''answer'') ?items')"
    then have i: "i < length ds" "i < length ls" "i < length as"
      using len input(2) by simp_all
    from as i have "map_of (ds ! i) ''answer'' = Some (JStr (as ! i))"
      by (metis (mono_tags, lifting) length_map nth_map)
    then show "map (\<lambda>it. subscript it ''answer'') ?items' ! i
          = map (\<lambda>(a, l). Inr (JStr (if strip l = [] then a else strip l))) (zip as ls) ! i"
      using i by (simp add: dict_set_def update_conv)
  qed
  with interactive_fill_text[OF qs as input] show ?thesis by simp
qed

theorem interactive_fill_answers_witness:
  "\<exists>items' W'.
     interactive_fill
       [JObj [(''question'', JStr ''Color?''), (''answer'', JStr []), (''optional'', JBool True)],
        JObj [(''question'', JStr ''Size''), (''answer'', JStr ''L''), (''optional'', JBool False)]]
       \<lparr>files = Map.empty, stdin = [''  Blue '', ''   '', ''later''], stdout = []\<rparr>
       = (Inr items', W')
     \<and> items' =
        [JObj [(''question'', JStr ''Color?''), (''answer'', JStr ''Blue''), (''optional'', JBool True)],
         JObj [(''question'', JStr ''Size''), (''answer'', JStr ''L''), (''optional'', JBool False)]]
     \<and> stdin W' = [''later'']
     \<and> stdout W' =
         NL # ''Question: Color?'' @ [NL]
         @ ''R'' @ [e_acute] @ ''ponse actuelle: <vide>'' @ [NL]
         @ ''Nouvelle r'' @ [e_acute] @ ''ponse (ENTER pour garder): ''
         @ NL # ''Question: Size'' @ [NL]
         @ ''R'' @ [e_acute] @ ''ponse actuelle: L'' @ [NL]
         @ ''Nouvelle r'' @ [e_acute] @ ''ponse (ENTER pour garder): ''"
proof -
  have s1: "strip ''  Blue '' = ''Blue''" by code_simp
  have s2: "strip ''   '' = []" by code_simp
  show ?thesis
    using interactive_fill_answers[where
        ds = "[[(''question'', JStr ''Color?''), (''answer'', JStr []), (''optional'', JBool True)],
               [(''question'', JStr ''Size''), (''answer'', JStr ''L''), (''optional'', JBool False)]]"
        and qs = "[''Color?'', ''Size'']" and as = "[[], ''L'']"
        and ls = "[''  Blue '', ''   '']" and rest = "[''later'']"
        and W = "\<lparr>files = Map.empty, stdin = [''  Blue '', ''   '', ''later''], stdout = []\<rparr>"]
    by (simp add: s1 s2 dict_set_def)
qed

text \<open>
  Claim C10. Whatever the items and the input lines, when the filler returns, the list it
  returns has the length of the input, and at each position the item is a dict with the
  keys of the input item at that position, in the same order, and with the same value
  under every key other than \<^verbatim>\<open>answer\<close> (so the same question and the same optional
  flag). The files are not touched.
\<close>

theorem interactive_fill_frame:
  assumes "interactive_fill items W = (Inr items', W')"
  shows "length items' = length items
         \<and> (\<forall>i < length items. \<exists>d d'. items ! i = JObj d \<and> items' ! i = JObj d'
               \<and> map fst d' = map fst d
               \<and> (\<forall>k. k \<noteq> ''answer'' \<longrightarrow> map_of d' k = map_of d k))
         \<and> files W' = files W"
  using assms by (rule interactive_fill_frame_all)

theorem interactive_fill_frame_witness:
  "interactive_fill
       [JObj [(''question'', JStr ''Color?''), (''answer'', JStr []), (''optional'', JBool True)]]
       \<lparr>files = Map.empty, stdin = [''  Blue ''], stdout = []\<rparr>
     = (Inr [JObj [(''question'', JStr ''Color?''), (''answer'', JStr ''Blue''),
                   (''optional'', JBool True)]],
        \<lparr>files = Map.empty, stdin = [],
         stdout = NL # ''Question: Color?'' @ [NL]
           @ ''R'' @ [e_acute] @ ''ponse actuelle: <vide>'' @ [NL]
           @ ''Nouvelle r'' @ [e_acute] @ ''ponse (ENTER pour garder): ''\<rparr>)
   \<and> length [JObj [(''question'', JStr ''Color?''), (''answer'', JStr ''Blue''),
                   (''optional'', JBool True)]]
       = length [JObj [(''question'', JStr ''Color?''), (''answer'', JStr []),
                       (''optional'', JBool True)]]
   \<and> (\<exists>d d'. [JObj [(''question'', JStr ''Color?''), (''answer'', JStr []),
                     (''optional'', JBool True)]] ! 0 = JObj d
         \<and> [JObj [(''question'', JStr ''Color?''), (''answer'', JStr ''Blue''),
                   (''optional'', JBool True)]] ! 0 = JObj d'
         \<and> map fst d' = map fst d
         \<and> map_of d' ''question'' = map_of d ''question''
         \<and> map_of d' ''optional'' = map_of d ''optional'')"
proof -
  have s1: "strip ''  Blue '' = ''Blue''" by code_simp
  have h: "interactive_fill
       [JObj [(''question'', JStr ''Color?''), (''answer'', JStr []), (''optional'', JBool True)]]
       \<lparr>files = Map.empty, stdin = [''  Blue ''], stdout = []\<rparr>
     = (Inr [JObj [(''question'', JStr ''Color?''), (''answer'', JStr ''Blue''),
                   (''optional'', JBool True)]],
        \<lparr>files = Map.empty, stdin = [],
         stdout = NL # ''Question: Color?'' @ [NL]
           @ ''R'' @ [e_acute] @ ''ponse actuelle: <vide>'' @ [NL]
           @ ''Nouvelle r'' @ [e_acute] @ ''ponse (ENTER pour garder): ''\<rparr>)"
    using interactive_fill_text[where
        ds = "[[(''question'', JStr ''Color?''), (''answer'', JStr []), (''optional'', JBool True)]]"
        and qs = "[''Color?'']" and as = "[[]]" and ls = "[''  Blue '']" and rest = "[]"
        and W = "\<lparr>files = Map.empty, stdin = [''  Blue ''], stdout = []\<rparr>"]
    by (simp add: s1 dict_set_def)
  from interactive_fill_frame[OF h] h show ?thesis by simp
qed

section \<open>Loading and saving\<close>






section \<open>The data file is missing\<close>

text \<open>
  Claim C9. When there is no file at the data path, the fill tool prints the message with
  the path and returns: no exception, exit status 0, and no file is written (no backup,
  no save). The report tool prints the message with the path and exits with status 2.
\<close>

theorem missing_data_file:
  assumes "files W (DATA here) = None"
  shows "main L here a W
           = (Returned, W\<lparr>stdout := stdout W @ ''Fichier de questions introuvable: '' @ DATA here @ [NL]\<rparr>)
         \<and> exit_status (fst (main L here a W)) = 0
         \<and> files (snd (main L here a W)) = files W
         \<and> qna_main L here argv W
           = (Exited 2, W\<lparr>stdout := stdout W @ ''Fichier de questions introuvable: '' @ DATA_FILE here @ [NL]\<rparr>)
         \<and> exit_status (fst (qna_main L here argv W)) = 2
         \<and> files (snd (qna_main L here argv W)) = files W"
  using assms by (simp add: main_def qna_main_def DATA_def DATA_FILE_def print_def)

theorem missing_data_file_witness:
  "files \<lparr>files = Map.empty, stdin = [], stdout = []\<rparr> (DATA ''/srv/tools'') = None
   \<and> main sample_lib ''/srv/tools'' \<lparr>dedupe_only = False, interactive = True\<rparr>
        \<lparr>files = Map.empty, stdin = [], stdout = []\<rparr>
      = (Returned,
         \<lparr>files = Map.empty, stdin = [],
          stdout = ''Fichier de questions introuvable: /srv/tools/audit1_questions.json'' @ [NL]\<rparr>)
   \<and> qna_main sample_lib ''/srv/tools'' [''audit_qna.py''] \<lparr>files = Map.empty, stdin = [], stdout = []\<rparr>
      = (Exited 2,
         \<lparr>files = Map.empty, stdin = [],
          stdout = ''Fichier de questions introuvable: /srv/tools/audit1_questions.json'' @ [NL]\<rparr>)"
proof -
  have h: "files \<lparr>files = Map.empty, stdin = [], stdout = []\<rparr> (DATA ''/srv/tools'') = None"
    by simp
  have d: "DATA ''/srv/tools'' = ''/srv/tools/audit1_questions.json''"
    by (simp add: DATA_def path_div_def)
  have d': "DATA_FILE ''/srv/tools'' = ''/srv/tools/audit1_questions.json''"
    by (simp add: DATA_FILE_def path_div_def)
  from missing_data_file[OF h, of sample_lib "\<lparr>dedupe_only = False, interactive = True\<rparr>" "[''audit_qna.py'']"]
  show ?thesis by (simp add: d d')
qed

section \<open>The report of a record without an answer\<close>

text \<open>
  Claim C8 does not hold for the report tool. \<^verbatim>\<open>dedupe\<close> reads a missing answer as the
  empty string (\<^verbatim>\<open>it.get('answer','')\<close>, line 37), but \<^verbatim>\<open>print_qna\<close> reads it with
  \<^verbatim>\<open>item.get('answer')\<close>, which gives \<^verbatim>\<open>None\<close>, and the f-string prints that as the text
  \<^verbatim>\<open>None\<close>: for the one-record list whose record has only a question, the transcript is
  as follows.
\<close>

theorem print_qna_missing_answer:
  "print_qna L (JArr [JObj [(''question'', JStr ''Q'')]]) W
     = (Inr (), W\<lparr>stdout := stdout W @ ''1. Question: Q'' @ [NL]
                      @ ''   R'' @ [e_acute] @ ''ponse: None'' @ [NL] @ [NL]\<rparr>)"
  by (simp add: print_qna_def print_def dict_get_def digits_one digits_Suc_0)

end
